theory Spec2Isabelle
  imports Main "HOL-Library.Char_ord" "HOL-Library.List_Lexorder"
begin

section \<open>The host document\<close>

text \<open>
  The functions of \<^verbatim>\<open>getUniqueDomElements\<close> read a browser document. An element is
  modelled by the four properties the code reads: \<^verbatim>\<open>tagName\<close>, \<^verbatim>\<open>attributes\<close>
  (name/value pairs, in the order of the \<^verbatim>\<open>NamedNodeMap\<close>), \<^verbatim>\<open>classList\<close> and
  \<^verbatim>\<open>children\<close> (child elements in document order). A document is its \<^verbatim>\<open>body\<close>,
  which is \<^verbatim>\<open>null\<close> (\<open>None\<close>) when the document has no content root.

  Tag names are \<open>string\<close>s compared by character code, first difference first and a
  proper prefix before its extensions: the order of JavaScript's default
  \<^verbatim>\<open>Array.prototype.sort\<close> on strings. A \<open>char\<close> stands for one code unit of a
  JavaScript string, with the code \<open>of_char\<close> gives it: the code units U+0000 to
  U+00FF.
\<close>

datatype element =
  Element (tagName: string) (attributes: "(string \<times> string) list")
    (classList: "string list") (children: "element list")

record document =
  body :: "element option"

text \<open>
  \<^verbatim>\<open>root.querySelectorAll('*')\<close>: every element below \<open>root\<close>, the root itself
  excluded, in document order (a parent before its children, children left to right).
\<close>

fun querySelectorAll :: "element \<Rightarrow> element list" where
  "querySelectorAll (Element t a c cs) = concat (map (\<lambda>e. e # querySelectorAll e) cs)"

text \<open>The number of elements below an element.\<close>

fun descendant_count :: "element \<Rightarrow> nat" where
  "descendant_count (Element t a c cs) = sum_list (map (\<lambda>e. Suc (descendant_count e)) cs)"

text \<open>
  The descendants of an element, as a relation: the children, and the descendants of
  the children.
\<close>

inductive descendant :: "element \<Rightarrow> element \<Rightarrow> bool" where
  child: "d \<in> set (children e) \<Longrightarrow> descendant d e"
| below: "c \<in> set (children e) \<Longrightarrow> descendant d c \<Longrightarrow> descendant d e"

section \<open>Built-in collections\<close>

text \<open>
  A JavaScript \<^verbatim>\<open>Set\<close> iterates in insertion order, and adding a value it already
  holds changes nothing. It is modelled by the list of its values in that order;
  \<^verbatim>\<open>[...new Set(xs)]\<close> is \<open>new_Set xs\<close>.
\<close>

definition Set_add :: "'a list \<Rightarrow> 'a \<Rightarrow> 'a list" where
  "Set_add s x = (if x \<in> set s then s else s @ [x])"

definition new_Set :: "'a list \<Rightarrow> 'a list" where
  "new_Set xs = foldl Set_add [] xs"

section \<open>Option 1: the simple listing\<close>

text \<open>
  \<^verbatim>\<open>document.body?.querySelectorAll('*') || []\<close>: the empty array when there is no
  body, the node list otherwise (a node list is truthy even when empty).
\<close>

definition bodyElements :: "document \<Rightarrow> element list" where
  "bodyElements doc = (case body doc of None \<Rightarrow> [] | Some b \<Rightarrow> querySelectorAll b)"

definition getUniqueDomElements :: "document \<Rightarrow> string list" where
  "getUniqueDomElements doc =
     (let uniqueTagNames = new_Set (map tagName (bodyElements doc))
      in sort uniqueTagNames)"

text \<open>
  A JavaScript \<^verbatim>\<open>Map\<close> keeps its entries in the order in which their keys were first
  set; setting a key again replaces the value where the entry stands. It is modelled by
  the list of its entries. An object built property by property enumerates the same way
  when no property name is an array index; tag names, which begin with a letter, are
  not.
\<close>

fun Map_set :: "('k \<times> 'v) list \<Rightarrow> 'k \<Rightarrow> 'v \<Rightarrow> ('k \<times> 'v) list" where
  "Map_set [] k v = [(k, v)]"
| "Map_set ((k', v') # m) k v = (if k' = k then (k, v) # m else (k', v') # Map_set m k v)"

definition Map_get :: "('k \<times> 'v) list \<Rightarrow> 'k \<Rightarrow> 'v option" where
  "Map_get m k = map_of m k"

definition Map_has :: "('k \<times> 'v) list \<Rightarrow> 'k \<Rightarrow> bool" where
  "Map_has m k = (map_of m k \<noteq> None)"

definition Object_fromEntries :: "('k \<times> 'v) list \<Rightarrow> ('k \<times> 'v) list" where
  "Object_fromEntries entries = foldl (\<lambda>obj (k, v). Map_set obj k v) [] entries"

text \<open>
  \<^verbatim>\<open>array.sort(compare)\<close> is a stable sort: where \<open>compare\<close> is a consistent
  comparator the result is the one sorted arrangement that keeps elements comparing
  equal in their former order. Insertion from the right computes it: an element goes in
  front of the first element it does not compare greater than.
\<close>

fun insert_cmp :: "('a \<Rightarrow> 'a \<Rightarrow> int) \<Rightarrow> 'a \<Rightarrow> 'a list \<Rightarrow> 'a list" where
  "insert_cmp compare x [] = [x]"
| "insert_cmp compare x (y # ys) =
     (if compare x y \<le> 0 then x # y # ys else y # insert_cmp compare x ys)"

definition Array_sort :: "('a \<Rightarrow> 'a \<Rightarrow> int) \<Rightarrow> 'a list \<Rightarrow> 'a list" where
  "Array_sort compare xs = foldr (insert_cmp compare) xs []"

section \<open>Option 2: the configurable listing\<close>

text \<open>
  The values an option can hold. Truthiness is what \<^verbatim>\<open>!container\<close> and the
  conditional operator test.
\<close>

datatype js_value =
  JUndefined | JNull | JBool bool | JNumber int | JNaN | JString string | JElement element

fun truthy :: "js_value \<Rightarrow> bool" where
  "truthy JUndefined = False"
| "truthy JNull = False"
| "truthy (JBool b) = b"
| "truthy (JNumber n) = (n \<noteq> 0)"
| "truthy JNaN = False"
| "truthy (JString s) = (s \<noteq> [])"
| "truthy (JElement e) = True"

text \<open>
  The options object. Reading a property that the object does not have gives
  \<^verbatim>\<open>undefined\<close>, as reading one that was set to \<^verbatim>\<open>undefined\<close> does, so an omitted
  option is \<open>JUndefined\<close>; \<open>no_options\<close> is \<^verbatim>\<open>{}\<close>, the default of the parameter.
\<close>

record options =
  container :: js_value
  includeContainer :: js_value
  toLowerCase :: js_value
  sortResults :: js_value

definition no_options :: options where
  "no_options = \<lparr>container = JUndefined, includeContainer = JUndefined,
     toLowerCase = JUndefined, sortResults = JUndefined\<rparr>"

text \<open>A destructuring default applies when the value read is \<^verbatim>\<open>undefined\<close>, and only then.\<close>

definition default_to :: "js_value \<Rightarrow> js_value \<Rightarrow> js_value" where
  "default_to d v = (if v = JUndefined then d else v)"

text \<open>\<^verbatim>\<open>document.body\<close> as a value: \<^verbatim>\<open>null\<close> when the document has no body.\<close>

definition document_body :: "document \<Rightarrow> js_value" where
  "document_body doc = (case body doc of None \<Rightarrow> JNull | Some b \<Rightarrow> JElement b)"

text \<open>
  \<^verbatim>\<open>String.prototype.toLowerCase\<close> works code unit by code unit on the code units up to
  U+00FF: the capital letters there are A to Z (U+0041 to U+005A) and the accented
  capitals U+00C0 to U+00DE without the multiplication sign U+00D7, and the small
  letter of each is 32 code units further on. Every other code unit stays as it is.
\<close>

definition capital_letter :: "char \<Rightarrow> bool" where
  "capital_letter c \<longleftrightarrow>
     (let n = (of_char c :: nat)
      in (65 \<le> n \<and> n \<le> 90) \<or> (192 \<le> n \<and> n \<le> 214) \<or> (216 \<le> n \<and> n \<le> 222))"

definition char_toLowerCase :: "char \<Rightarrow> char" where
  "char_toLowerCase c =
     (if capital_letter c then char_of (of_char c + (32::nat)) else c)"

definition String_toLowerCase :: "string \<Rightarrow> string" where
  "String_toLowerCase s = map char_toLowerCase s"

text \<open>
  \<open>ContainerNotFound\<close> is \<^verbatim>\<open>new Error('Container element not found')\<close>. \<open>TypeError\<close> is
  what calling \<^verbatim>\<open>container.querySelectorAll\<close> throws on a truthy value that is not an
  element.
\<close>

datatype error = ContainerNotFound | TypeError

text \<open>
  The small letters that \<open>char_toLowerCase\<close> maps a capital letter onto: a to z, and
  U+00E0 to U+00FE without the division sign U+00F7.
\<close>

definition lowercase_letter :: "char \<Rightarrow> bool" where
  "lowercase_letter c \<longleftrightarrow>
     (let n = (of_char c :: nat)
      in (97 \<le> n \<and> n \<le> 122) \<or> (224 \<le> n \<and> n \<le> 246) \<or> (248 \<le> n \<and> n \<le> 254))"

definition getUniqueDomElementsRobust :: "document \<Rightarrow> options \<Rightarrow> error + string list" where
  "getUniqueDomElementsRobust doc opts =
     (let container_v = default_to (document_body doc) (container opts);
          includeContainer_v = default_to (JBool False) (includeContainer opts);
          toLowerCase_v = default_to (JBool False) (toLowerCase opts);
          sortResults_v = default_to (JBool True) (sortResults opts)
      in if \<not> truthy container_v then Inl ContainerNotFound
         else case container_v of
           JElement c \<Rightarrow>
             (let elements = querySelectorAll c;
                  tagNames = map (\<lambda>el. if truthy toLowerCase_v
                       then String_toLowerCase (tagName el) else tagName el) elements;
                  tagNames = (if truthy includeContainer_v
                       then tagNames @ [if truthy toLowerCase_v
                         then String_toLowerCase (tagName c) else tagName c]
                       else tagNames);
                  unique = new_Set tagNames
              in Inr (if truthy sortResults_v then sort unique else unique))
         | _ \<Rightarrow> Inl TypeError)"

section \<open>Option 3: the listing with metadata\<close>

record tag_record =
  rec_tagName :: string
  count :: nat
  firstInstance :: element
  firstInstanceAttributes :: "string \<rightharpoonup> string"
  firstInstanceClasses :: "string list"

text \<open>
  The object literal stored for a tag seen for the first time: count 0, the element,
  and a copy of its classes and of its attributes. The copy of the attributes is the
  object that \<^verbatim>\<open>reduce\<close> fills by \<^verbatim>\<open>acc[attr.name] = attr.value\<close>, attribute after
  attribute: a map from property name to value (the order in which an object
  enumerates its properties is not part of the model).
\<close>

definition new_record :: "element \<Rightarrow> tag_record" where
  "new_record element =
     \<lparr>rec_tagName = tagName element, count = 0, firstInstance = element,
      firstInstanceAttributes =
        foldl (\<lambda>acc (name, v). acc(name \<mapsto> v)) Map.empty (attributes element),
      firstInstanceClasses = classList element\<rparr>"

text \<open>
  The body of the \<^verbatim>\<open>forEach\<close>: a tag seen for the first time gets its record;
  then the count of the tag's record goes up by one. \<^verbatim>\<open>elementMap.get(tagName)\<close>
  cannot miss there.
\<close>

definition record_element ::
  "element \<Rightarrow> (string \<times> tag_record) list \<Rightarrow> (string \<times> tag_record) list" where
  "record_element element elementMap =
     (let t = tagName element;
          m = (if \<not> Map_has elementMap t
               then Map_set elementMap t (new_record element)
               else elementMap)
      in case Map_get m t of
           Some r \<Rightarrow> Map_set m t (r\<lparr>count := count r + 1\<rparr>)
         | None \<Rightarrow> m)"

definition elementMap_of :: "document \<Rightarrow> (string \<times> tag_record) list" where
  "elementMap_of doc = fold record_element (bodyElements doc) []"

datatype listing = TagNames "string list" | Metadata "tag_record list"

text \<open>
  \<^verbatim>\<open>String.prototype.localeCompare\<close> is the host's collation; the function takes it as
  its first argument.
\<close>

definition getUniqueDomElementsWithMetadata ::
  "(string \<Rightarrow> string \<Rightarrow> int) \<Rightarrow> document \<Rightarrow> bool \<Rightarrow> listing" where
  "getUniqueDomElementsWithMetadata localeCompare doc includeMetadata =
     (let elementMap = elementMap_of doc
      in if includeMetadata
         then Metadata (Array_sort (\<lambda>a b. localeCompare (rec_tagName a) (rec_tagName b))
                          (map snd elementMap))
         else TagNames (sort (map fst elementMap)))"


text \<open>
  The record a tag that occurs in \<open>els\<close> should end with: the tag, the number of
  elements with the tag, the first of them, its attributes by name (of two attributes
  with one name, the later) and its classes.
\<close>

definition tag_record_of :: "element list \<Rightarrow> string \<Rightarrow> tag_record" where
  "tag_record_of els t =
     (let first = hd (filter (\<lambda>e. tagName e = t) els)
      in \<lparr>rec_tagName = t, count = count_list (map tagName els) t,
          firstInstance = first,
          firstInstanceAttributes = map_of (rev (attributes first)),
          firstInstanceClasses = classList first\<rparr>)"

text \<open>A collation to run the function with: comparison by character code.\<close>

definition codeUnitCompare :: "string \<Rightarrow> string \<Rightarrow> int" where
  "codeUnitCompare a b = (if a < b then - 1 else if a = b then 0 else 1)"

section \<open>Utilities: nesting depth and structure analysis\<close>

text \<open>
  \<^verbatim>\<open>calculateDepth\<close> updates the variable \<^verbatim>\<open>maxDepth\<close> of the enclosing call; here it
  takes the variable's value and returns the new one.
\<close>

fun calculateDepth :: "element \<Rightarrow> nat \<Rightarrow> nat \<Rightarrow> nat" where
  "calculateDepth (Element t a c cs) currentDepth maxDepth =
     fold (\<lambda>child m. calculateDepth child (currentDepth + 1) m) cs (max maxDepth currentDepth)"

definition getMaxNestingDepth :: "document \<Rightarrow> nat" where
  "getMaxNestingDepth doc =
     (case body doc of None \<Rightarrow> 0 | Some b \<Rightarrow> calculateDepth b 0 0)"

text \<open>The number of child links on the longest path down from an element.\<close>

fun height :: "element \<Rightarrow> nat" where
  "height (Element t a c cs) = foldr (\<lambda>child m. max (Suc (height child)) m) cs 0"

definition count_element :: "element \<Rightarrow> (string \<times> nat) list \<Rightarrow> (string \<times> nat) list" where
  "count_element el tagCounts =
     Map_set tagCounts (tagName el)
       ((case Map_get tagCounts (tagName el) of None \<Rightarrow> 0 | Some n \<Rightarrow> n) + 1)"

definition tagCounts_of :: "document \<Rightarrow> (string \<times> nat) list" where
  "tagCounts_of doc = fold count_element (bodyElements doc) []"

record analysis =
  totalElements :: nat
  uniqueElements :: nat
  mostCommon :: "(string \<times> nat) option"
  leastCommon :: "(string \<times> nat) option"
  elementFrequency :: "(string \<times> nat) list"
  deepestNesting :: nat

definition analyzeDomStructure :: "document \<Rightarrow> analysis" where
  "analyzeDomStructure doc =
     (let tagCounts = tagCounts_of doc;
          sortedByCount = Array_sort (\<lambda>a b. int (snd b) - int (snd a)) tagCounts
      in \<lparr>totalElements = length (bodyElements doc),
          uniqueElements = length tagCounts,
          mostCommon = (case sortedByCount of [] \<Rightarrow> None | e # _ \<Rightarrow> Some e),
          leastCommon = (if sortedByCount = [] then None else Some (last sortedByCount)),
          elementFrequency = Object_fromEntries sortedByCount,
          deepestNesting = getMaxNestingDepth doc\<rparr>)"

text \<open>
  The tags in the order in which the traversal first meets them, each with the number
  of elements that carry it.
\<close>

definition firstSeenCounts :: "document \<Rightarrow> (string \<times> nat) list" where
  "firstSeenCounts doc =
     (let tags = map tagName (bodyElements doc)
      in map (\<lambda>t. (t, count_list tags t)) (new_Set tags))"

text \<open>Example documents.\<close>

definition leaf :: "string \<Rightarrow> element" where
  "leaf t = Element t [] [] []"

definition no_body :: document where
  "no_body = \<lparr>body = None\<rparr>"

definition div_span_p :: document where
  "div_span_p = \<lparr>body = Some (Element ''BODY'' [] []
     [Element ''DIV'' [] [] [leaf ''SPAN''], leaf ''P''])\<rparr>"

definition p_div_div :: document where
  "p_div_div = \<lparr>body = Some (Element ''BODY'' [] []
     [leaf ''P'', leaf ''DIV'', leaf ''DIV''])\<rparr>"


definition e_acute_names :: document where
  "e_acute_names = \<lparr>body = Some (Element ''BODY'' [] []
     [leaf (''MY-'' @ [char_of (201::nat)]), leaf (''MY-'' @ [char_of (233::nat)])])\<rparr>"

definition html_a_svg_a :: document where
  "html_a_svg_a = \<lparr>body = Some (Element ''BODY'' [] []
     [leaf ''A'', Element ''svg'' [] [] [leaf ''a'']])\<rparr>"

section \<open>Traversal and collections: basic facts\<close>

lemma querySelectorAll_children:
  "querySelectorAll e = concat (map (\<lambda>c. c # querySelectorAll c) (children e))"
  by (cases e) simp

lemma descendant_in_querySelectorAll:
  "descendant d e \<Longrightarrow> d \<in> set (querySelectorAll e)"
proof (induction rule: descendant.induct)
  case (child d e)
  then show ?case by (subst querySelectorAll_children) auto
next
  case (below c e d)
  then show ?case by (subst querySelectorAll_children) auto
qed

lemma querySelectorAll_descendant:
  "d \<in> set (querySelectorAll e) \<Longrightarrow> descendant d e"
proof (induction e arbitrary: d rule: querySelectorAll.induct)
  case (1 t a c cs)
  from "1.prems" obtain k where k: "k \<in> set cs" and d: "d = k \<or> d \<in> set (querySelectorAll k)"
    by auto
  from d show ?case
  proof
    assume "d = k"
    with k show ?thesis by (simp add: descendant.child)
  next
    assume "d \<in> set (querySelectorAll k)"
    with "1.IH" k have "descendant d k" by blast
    with k show ?thesis by (auto intro: descendant.below)
  qed
qed

lemma set_querySelectorAll: "set (querySelectorAll e) = {d. descendant d e}"
  using descendant_in_querySelectorAll querySelectorAll_descendant by blast

lemma set_foldl_Set_add: "set (foldl Set_add s xs) = set s \<union> set xs"
  by (induction xs arbitrary: s) (auto simp: Set_add_def)

lemma distinct_foldl_Set_add: "distinct s \<Longrightarrow> distinct (foldl Set_add s xs)"
  by (induction xs arbitrary: s) (auto simp: Set_add_def)

lemma set_new_Set: "set (new_Set xs) = set xs"
  by (simp add: new_Set_def set_foldl_Set_add)

lemma distinct_new_Set: "distinct (new_Set xs)"
  by (simp add: new_Set_def distinct_foldl_Set_add)

lemma new_Set_snoc: "new_Set (xs @ [x]) = Set_add (new_Set xs) x"
  by (simp add: new_Set_def)

lemma length_querySelectorAll: "length (querySelectorAll e) = descendant_count e"
proof (induction e rule: querySelectorAll.induct)
  case (1 t a c cs)
  then show ?case by (simp add: length_concat comp_def cong: map_cong)
qed

section \<open>Maps as entry lists\<close>

lemma map_of_keyed: "map_of (map (\<lambda>t. (t, h t)) ks) k = (if k \<in> set ks then Some (h k) else None)"
  by (induction ks) auto

lemma Map_set_keyed_new:
  "k \<notin> set ks \<Longrightarrow> Map_set (map (\<lambda>t. (t, h t)) ks) k v = map (\<lambda>t. (t, h t)) ks @ [(k, v)]"
  by (induction ks) auto

lemma Map_set_keyed_old:
  "k \<in> set ks \<Longrightarrow> distinct ks \<Longrightarrow>
   Map_set (map (\<lambda>t. (t, h t)) ks) k v = map (\<lambda>t. (t, if t = k then v else h t)) ks"
  by (induction ks) auto

lemma Map_set_fresh: "k \<notin> fst ` set m \<Longrightarrow> Map_set m k v = m @ [(k, v)]"
  by (induction m) auto

lemma map_of_Map_set: "map_of (Map_set m k v) = (map_of m)(k \<mapsto> v)"
  by (induction m) auto

lemma Map_set_Map_set: "Map_set (Map_set m k v) k v' = Map_set m k v'"
  by (induction m) auto

lemma foldl_Map_set_distinct:
  "distinct (map fst (m @ es)) \<Longrightarrow> foldl (\<lambda>obj (k, v). Map_set obj k v) m es = m @ es"
proof (induction es arbitrary: m)
  case Nil
  show ?case by simp
next
  case (Cons e es)
  obtain k v where e: "e = (k, v)" by (cases e)
  from Cons.prems e have "k \<notin> fst ` set m" by auto
  then have "Map_set m k v = m @ [(k, v)]" by (rule Map_set_fresh)
  moreover from Cons.prems e have "distinct (map fst ((m @ [(k, v)]) @ es))" by simp
  ultimately show ?case using Cons.IH [of "m @ [(k, v)]"] e by simp
qed

lemma Object_fromEntries_distinct: "distinct (map fst es) \<Longrightarrow> Object_fromEntries es = es"
  using foldl_Map_set_distinct [of "[]" es] by (simp add: Object_fromEntries_def)

section \<open>The stable sort\<close>

lemma insert_cmp_insort_key:
  "(\<And>a b. compare a b \<le> 0 \<longleftrightarrow> f a \<le> f b) \<Longrightarrow> insert_cmp compare x ys = insort_key f x ys"
  by (induction ys) auto

lemma Array_sort_sort_key:
  "(\<And>a b. compare a b \<le> 0 \<longleftrightarrow> f a \<le> f b) \<Longrightarrow> Array_sort compare xs = sort_key f xs"
  by (induction xs) (simp_all add: Array_sort_def insert_cmp_insort_key)

lemma sortedByCount_sort_key:
  "Array_sort (\<lambda>a b. int (snd b) - int (snd a)) xs = sort_key (\<lambda>e. - int (snd e)) xs"
  by (rule Array_sort_sort_key) auto



lemma length_insert_cmp: "length (insert_cmp compare x ys) = Suc (length ys)"
  by (induction ys) auto

lemma length_Array_sort: "length (Array_sort compare xs) = length xs"
  by (induction xs) (simp_all add: Array_sort_def length_insert_cmp)

lemma sum_list_insert_cmp:
  "sum_list (map g (insert_cmp compare x ys)) = (g x :: nat) + sum_list (map g ys)"
  by (induction ys) auto

lemma sum_list_Array_sort: "sum_list (map g (Array_sort compare xs)) = sum_list (map (g::'a \<Rightarrow> nat) xs)"
  by (induction xs) (simp_all add: Array_sort_def sum_list_insert_cmp)





lemma distinct_map_sort_key: "distinct (map g (sort_key f xs)) = distinct (map g xs)"
  by (simp add: distinct_map)

text \<open>
  The first element of a stable sort is the first of the least elements of the input,
  and the last one is the last of the greatest.
\<close>

lemma hd_insort_key:
  "(case insort_key f x ys of [] \<Rightarrow> None | e # _ \<Rightarrow> Some e) =
   (case ys of [] \<Rightarrow> Some x | y # _ \<Rightarrow> if f x \<le> f y then Some x else Some y)"
  by (cases ys) auto

lemma first_sort_key:
  "(case sort_key f xs of [] \<Rightarrow> None | e # _ \<Rightarrow> Some e) = find (\<lambda>x. \<forall>y\<in>set xs. f x \<le> f y) xs"
proof (induction xs)
  case Nil
  show ?case by simp
next
  case (Cons x xs)
  show ?case
  proof (cases "sort_key f xs")
    case Nil
    then have "xs = []" by (metis length_sort length_0_conv)
    then show ?thesis by simp
  next
    case (Cons y ys)
    with Cons.IH have fy: "find (\<lambda>z. \<forall>y\<in>set xs. f z \<le> f y) xs = Some y" by simp
    then have ymin: "\<forall>z\<in>set xs. f y \<le> f z" and yin: "y \<in> set xs"
      by (auto simp: find_Some_iff)
    show ?thesis
    proof (cases "f x \<le> f y")
      case True
      with ymin have "\<forall>z\<in>set (x # xs). f x \<le> f z" by auto
      with True Cons show ?thesis by simp
    next
      case False
      define P where "P = (\<lambda>z. \<forall>y\<in>set (x # xs). f z \<le> f y)"
      from False yin have nx: "\<not> P x" by (auto simp: P_def)
      have "find P xs = find (\<lambda>z. \<forall>y\<in>set xs. f z \<le> f y) xs"
      proof (rule find_cong [OF refl])
        fix z assume "z \<in> set xs"
        show "P z = (\<forall>y\<in>set xs. f z \<le> f y)"
          using False yin by (auto simp: P_def)
      qed
      with nx fy have "find P (x # xs) = Some y" by simp
      moreover from False Cons
      have "(case sort_key f (x # xs) of [] \<Rightarrow> None | e # _ \<Rightarrow> Some e) = Some y" by simp
      ultimately show ?thesis by (simp only: P_def)
    qed
  qed
qed

lemma find_append:
  "find P (xs @ ys) = (case find P xs of None \<Rightarrow> find P ys | Some x \<Rightarrow> Some x)"
  by (induction xs) auto

lemma insort_key_snoc: "\<forall>y\<in>set ys. f y < f x \<Longrightarrow> insort_key f x ys = ys @ [x]"
  by (induction ys) auto

lemma last_insort_key: "\<exists>y\<in>set ys. f x \<le> f y \<Longrightarrow> last (insort_key f x ys) = last ys"
  by (induction ys) auto

lemma last_sort_key:
  "(if sort_key f xs = [] then None else Some (last (sort_key f xs))) =
   find (\<lambda>x. \<forall>y\<in>set xs. f y \<le> f x) (rev xs)"
proof (induction xs)
  case Nil
  show ?case by simp
next
  case (Cons x xs)
  show ?case
  proof (cases "\<forall>y\<in>set xs. f y < f x")
    case True
    then have "insort_key f x (sort_key f xs) = sort_key f xs @ [x]"
      by (simp add: insort_key_snoc)
    moreover from True have "find (\<lambda>z. \<forall>y\<in>set (x # xs). f y \<le> f z) (rev xs) = None"
      by (auto simp: find_None_iff)
    moreover from True have "\<forall>y\<in>set (x # xs). f y \<le> f x" by auto
    ultimately show ?thesis by (simp add: find_append)
  next
    case False
    then have ex: "\<exists>y\<in>set (sort_key f xs). f x \<le> f y" by (auto simp: not_less)
    from False have ne: "sort_key f xs \<noteq> []" by (cases xs) auto
    from ex have l: "last (insort_key f x (sort_key f xs)) = last (sort_key f xs)"
      by (rule last_insort_key)
    have eq: "find (\<lambda>z. \<forall>y\<in>set (x # xs). f y \<le> f z) (rev xs) = find (\<lambda>z. \<forall>y\<in>set xs. f y \<le> f z) (rev xs)"
    proof (rule find_cong [OF refl])
      fix z assume "z \<in> set (rev xs)"
      show "(\<forall>y\<in>set (x # xs). f y \<le> f z) = (\<forall>y\<in>set xs. f y \<le> f z)"
        using False by (auto simp: not_less)
    qed
    from Cons.IH ne have "find (\<lambda>z. \<forall>y\<in>set xs. f y \<le> f z) (rev xs) = Some (last (sort_key f xs))"
      by simp
    with eq l show ?thesis by (simp add: find_append)
  qed
qed

lemma find_Max: "find (\<lambda>e. \<forall>e'\<in>set xs. f e' \<le> f e) ys = find (\<lambda>e. f e = Max (f ` set xs)) ys"
  if "set ys \<subseteq> set xs" for f :: "'a \<Rightarrow> nat"
proof (rule find_cong [OF refl])
  fix e assume "e \<in> set ys"
  with that have "e \<in> set xs" by auto
  then show "(\<forall>e'\<in>set xs. f e' \<le> f e) = (f e = Max (f ` set xs))"
    by (auto intro: Max_eqI [symmetric])
qed

lemma find_Min: "find (\<lambda>e. \<forall>e'\<in>set xs. f e \<le> f e') ys = find (\<lambda>e. f e = Min (f ` set xs)) ys"
  if "set ys \<subseteq> set xs" for f :: "'a \<Rightarrow> nat"
proof (rule find_cong [OF refl])
  fix e assume "e \<in> set ys"
  with that have "e \<in> set xs" by auto
  then show "(\<forall>e'\<in>set xs. f e \<le> f e') = (f e = Min (f ` set xs))"
    by (auto intro: Min_eqI [symmetric])
qed

section \<open>The tag counts\<close>

lemma count_element_firstSeen:
  "count_element x (map (\<lambda>t. (t, count_list (map tagName xs) t)) (new_Set (map tagName xs)))
   = map (\<lambda>t. (t, count_list (map tagName (xs @ [x])) t)) (new_Set (map tagName (xs @ [x])))"
proof (cases "tagName x \<in> set (map tagName xs)")
  case True
  then show ?thesis
    by (simp add: count_element_def Map_get_def map_of_keyed set_new_Set new_Set_snoc
        Set_add_def Map_set_keyed_old distinct_new_Set)
next
  case False
  then show ?thesis
    by (auto simp: count_element_def Map_get_def map_of_keyed set_new_Set new_Set_snoc
        Set_add_def Map_set_keyed_new)
qed

lemma fold_count_element:
  "fold count_element xs [] = map (\<lambda>t. (t, count_list (map tagName xs) t)) (new_Set (map tagName xs))"
proof (induction xs rule: rev_induct)
  case Nil
  show ?case by (simp add: new_Set_def)
next
  case (snoc x xs)
  then show ?case using count_element_firstSeen [of x xs] by simp
qed

lemma tagCounts_of_firstSeenCounts: "tagCounts_of doc = firstSeenCounts doc"
  by (simp add: tagCounts_of_def firstSeenCounts_def fold_count_element Let_def)

lemma firstSeenCounts_Nil: "firstSeenCounts doc = [] \<longleftrightarrow> bodyElements doc = []"
proof -
  have "set (new_Set (map tagName (bodyElements doc))) = {} \<longleftrightarrow> bodyElements doc = []"
    by (simp add: set_new_Set)
  then show ?thesis by (simp add: firstSeenCounts_def Let_def)
qed

lemma distinct_firstSeenCounts: "distinct (map fst (firstSeenCounts doc))"
  by (simp add: firstSeenCounts_def Let_def comp_def distinct_new_Set)

lemma sum_firstSeenCounts: "sum_list (map snd (firstSeenCounts doc)) = length (bodyElements doc)"
proof -
  let ?tags = "map tagName (bodyElements doc)"
  have "sum_list (map snd (firstSeenCounts doc)) = sum_list (map (count_list ?tags) (new_Set ?tags))"
    by (simp add: firstSeenCounts_def Let_def comp_def)
  also have "\<dots> = sum (count_list ?tags) (set (new_Set ?tags))"
    by (rule sum_list_distinct_conv_sum_set) (rule distinct_new_Set)
  also have "\<dots> = length ?tags"
    by (simp add: set_new_Set sum_count_set)
  finally show ?thesis by simp
qed

lemma sortedByCount_firstSeen:
  "Array_sort (\<lambda>a b. int (snd b) - int (snd a)) (tagCounts_of doc)
   = sort_key (\<lambda>e. - int (snd e)) (firstSeenCounts doc)"
  by (simp add: sortedByCount_sort_key tagCounts_of_firstSeenCounts)

lemma elementFrequency_sort_key:
  "elementFrequency (analyzeDomStructure doc) = sort_key (\<lambda>e. - int (snd e)) (firstSeenCounts doc)"
  by (simp add: analyzeDomStructure_def Let_def sortedByCount_firstSeen
      Object_fromEntries_distinct distinct_map_sort_key distinct_firstSeenCounts)

lemma mostCommon_find:
  "mostCommon (analyzeDomStructure doc)
   = find (\<lambda>e. \<forall>e'\<in>set (firstSeenCounts doc). snd e' \<le> snd e) (firstSeenCounts doc)"
  using first_sort_key [of "\<lambda>e. - int (snd e)" "firstSeenCounts doc"]
  by (simp add: analyzeDomStructure_def Let_def sortedByCount_firstSeen)

lemma leastCommon_find:
  "leastCommon (analyzeDomStructure doc)
   = find (\<lambda>e. \<forall>e'\<in>set (firstSeenCounts doc). snd e \<le> snd e') (rev (firstSeenCounts doc))"
  using last_sort_key [of "\<lambda>e. - int (snd e)" "firstSeenCounts doc"]
  by (simp add: analyzeDomStructure_def Let_def sortedByCount_firstSeen split: if_splits)

section \<open>The tag records\<close>

lemma foldl_attributes:
  "foldl (\<lambda>acc (name, v). acc(name \<mapsto> v)) Map.empty xs = map_of (rev xs)"
  by (induction xs rule: rev_induct) auto

lemma new_record_fields:
  "rec_tagName (new_record e) = tagName e"
  "count (new_record e) = 0"
  "firstInstance (new_record e) = e"
  "firstInstanceAttributes (new_record e) = map_of (rev (attributes e))"
  "firstInstanceClasses (new_record e) = classList e"
  by (simp_all add: new_record_def foldl_attributes)

lemma tag_record_of_snoc_other:
  "t \<in> tagName ` set xs \<Longrightarrow> tagName x \<noteq> t \<Longrightarrow> tag_record_of (xs @ [x]) t = tag_record_of xs t"
  by (simp add: tag_record_of_def Let_def)

lemma tag_record_of_snoc_same:
  "tagName x \<in> tagName ` set xs \<Longrightarrow>
   tag_record_of (xs @ [x]) (tagName x)
   = (tag_record_of xs (tagName x))\<lparr>count := count (tag_record_of xs (tagName x)) + 1\<rparr>"
proof -
  assume "tagName x \<in> tagName ` set xs"
  then have "filter (\<lambda>e. tagName e = tagName x) xs \<noteq> []"
    by (auto simp: filter_empty_conv)
  then show ?thesis by (simp add: tag_record_of_def Let_def)
qed

lemma tag_record_of_snoc_new:
  "tagName x \<notin> tagName ` set xs \<Longrightarrow>
   tag_record_of (xs @ [x]) (tagName x) = (new_record x)\<lparr>count := 1\<rparr>"
proof -
  assume "tagName x \<notin> tagName ` set xs"
  then have "filter (\<lambda>e. tagName e = tagName x) xs = []"
    by (auto simp: filter_empty_conv intro: rev_image_eqI)
  moreover from \<open>tagName x \<notin> tagName ` set xs\<close> have "count_list (map tagName xs) (tagName x) = 0"
    by (simp add: count_list_0_iff)
  ultimately show ?thesis
    by (simp add: tag_record_of_def Let_def new_record_def foldl_attributes)
qed

lemma record_element_new:
  "map_of m (tagName x) = None \<Longrightarrow>
   record_element x m = Map_set m (tagName x) ((new_record x)\<lparr>count := 1\<rparr>)"
  by (simp add: record_element_def Let_def Map_has_def Map_get_def map_of_Map_set
      Map_set_Map_set new_record_def)

lemma record_element_old:
  "map_of m (tagName x) = Some r \<Longrightarrow>
   record_element x m = Map_set m (tagName x) (r\<lparr>count := count r + 1\<rparr>)"
  by (simp add: record_element_def Let_def Map_has_def Map_get_def)

lemma record_element_step:
  "record_element x (map (\<lambda>t. (t, tag_record_of xs t)) (new_Set (map tagName xs)))
   = map (\<lambda>t. (t, tag_record_of (xs @ [x]) t)) (new_Set (map tagName (xs @ [x])))"
proof (cases "tagName x \<in> tagName ` set xs")
  case True
  let ?ks = "new_Set (map tagName xs)"
  from True have in_ks: "tagName x \<in> set ?ks" by (simp add: set_new_Set)
  have "record_element x (map (\<lambda>t. (t, tag_record_of xs t)) ?ks)
    = map (\<lambda>t. (t, if t = tagName x
          then (tag_record_of xs (tagName x))\<lparr>count := count (tag_record_of xs (tagName x)) + 1\<rparr>
          else tag_record_of xs t)) ?ks"
    using in_ks
    by (simp add: record_element_old map_of_keyed Map_set_keyed_old distinct_new_Set)
  also have "\<dots> = map (\<lambda>t. (t, tag_record_of (xs @ [x]) t)) ?ks"
  proof (rule map_cong [OF refl])
    fix t assume "t \<in> set ?ks"
    then have "t \<in> tagName ` set xs" by (simp add: set_new_Set)
    then show "(t, if t = tagName x
          then (tag_record_of xs (tagName x))\<lparr>count := count (tag_record_of xs (tagName x)) + 1\<rparr>
          else tag_record_of xs t) = (t, tag_record_of (xs @ [x]) t)"
      using True by (simp add: tag_record_of_snoc_other tag_record_of_snoc_same)
  qed
  finally show ?thesis using in_ks by (simp add: new_Set_snoc Set_add_def)
next
  case False
  let ?ks = "new_Set (map tagName xs)"
  from False have notin: "tagName x \<notin> set ?ks" by (simp add: set_new_Set)
  have step: "record_element x (map (\<lambda>t. (t, tag_record_of xs t)) ?ks)
    = map (\<lambda>t. (t, tag_record_of xs t)) ?ks @ [(tagName x, (new_record x)\<lparr>count := 1\<rparr>)]"
    using notin
    by (simp add: record_element_new map_of_keyed Map_set_keyed_new)
  have same: "map (\<lambda>t. (t, tag_record_of (xs @ [x]) t)) ?ks = map (\<lambda>t. (t, tag_record_of xs t)) ?ks"
  proof (rule map_cong [OF refl])
    fix t assume "t \<in> set ?ks"
    then have t: "t \<in> tagName ` set xs" by (simp add: set_new_Set)
    with False have "tagName x \<noteq> t" by blast
    with t show "(t, tag_record_of (xs @ [x]) t) = (t, tag_record_of xs t)"
      by (simp add: tag_record_of_snoc_other)
  qed
  from notin False show ?thesis
    by (simp add: step same new_Set_snoc Set_add_def tag_record_of_snoc_new)
qed

lemma fold_record_element:
  "fold record_element xs [] = map (\<lambda>t. (t, tag_record_of xs t)) (new_Set (map tagName xs))"
proof (induction xs rule: rev_induct)
  case Nil
  show ?case by (simp add: new_Set_def)
next
  case (snoc x xs)
  then show ?case using record_element_step [of x xs] by simp
qed


lemma elementMap_of_values:
  "map snd (elementMap_of doc)
   = map (tag_record_of (bodyElements doc)) (new_Set (map tagName (bodyElements doc)))"
  by (simp add: elementMap_of_def fold_record_element comp_def)


lemma count_tag_record_of: "count (tag_record_of els t) = count_list (map tagName els) t"
  by (simp add: tag_record_of_def Let_def)






section \<open>The nesting depth\<close>

lemma fold_depth:
  "d \<le> m \<Longrightarrow>
   fold (\<lambda>child m. max m (Suc d + height child)) cs m
   = max m (d + foldr (\<lambda>child m. max (Suc (height child)) m) cs 0)"
proof (induction cs arbitrary: m)
  case Nil
  then show ?case by simp
next
  case (Cons c cs)
  from Cons.prems have "d \<le> max m (Suc d + height c)" by simp
  from Cons.IH [OF this] show ?case by simp
qed

lemma calculateDepth_height: "calculateDepth e d m = max m (d + height e)"
proof (induction e d m rule: calculateDepth.induct)
  case (1 t a c cs currentDepth maxDepth)
  have IH: "calculateDepth x (Suc currentDepth) m = max m (Suc currentDepth + height x)"
    if "x \<in> set cs" for x m
    using "1.IH" [OF that, of m] by simp
  have "fold (\<lambda>child m. calculateDepth child (currentDepth + 1) m) cs (max maxDepth currentDepth)
    = fold (\<lambda>child m. max m (Suc currentDepth + height child)) cs (max maxDepth currentDepth)"
    by (rule fold_cong) (auto simp: IH)
  also have "\<dots> = max (max maxDepth currentDepth)
      (currentDepth + foldr (\<lambda>child m. max (Suc (height child)) m) cs 0)"
    by (rule fold_depth) simp
  finally show ?case by simp
qed

lemma getMaxNestingDepth_height: "getMaxNestingDepth \<lparr>body = Some b\<rparr> = height b"
  by (simp add: getMaxNestingDepth_def calculateDepth_height)

lemma height_flat:
  "cs \<noteq> [] \<Longrightarrow> \<forall>c\<in>set cs. children c = [] \<Longrightarrow> foldr (\<lambda>child m. max (Suc (height child)) m) cs 0 = 1"
proof (induction cs)
  case Nil
  then show ?case by simp
next
  case (Cons c cs)
  from Cons.prems have "height c = 0" by (cases c) simp
  with Cons show ?case by (cases "cs = []") simp_all
qed

section \<open>The configurable listing\<close>

lemma Robust_element:
  "default_to (document_body doc) (container opts) = JElement c \<Longrightarrow>
   getUniqueDomElementsRobust doc opts
   = Inr ((if truthy (default_to (JBool True) (sortResults opts)) then sort else (\<lambda>xs. xs))
       (new_Set (map (\<lambda>el. if truthy (default_to (JBool False) (toLowerCase opts))
                     then String_toLowerCase (tagName el) else tagName el)
          (querySelectorAll c
            @ (if truthy (default_to (JBool False) (includeContainer opts)) then [c] else [])))))"
  by (simp add: getUniqueDomElementsRobust_def Let_def)

lemma Robust_Inr_element:
  "getUniqueDomElementsRobust doc opts = Inr us \<Longrightarrow>
   \<exists>c. default_to (document_body doc) (container opts) = JElement c"
  by (cases "default_to (document_body doc) (container opts)")
    (simp_all add: getUniqueDomElementsRobust_def Let_def split: if_splits)

lemma length_eq_card_image:
  assumes "distinct us" "distinct ls" "set ls = f ` set us" "inj_on f (set us)"
  shows "length ls = length us"
proof -
  have "length ls = card (set ls)" using assms(2) by (simp add: distinct_card)
  also have "\<dots> = card (set us)" using assms(3,4) by (simp add: card_image)
  also have "\<dots> = length us" using assms(1) by (simp add: distinct_card)
  finally show ?thesis .
qed

lemma of_char_toLowerCase:
  "(of_char (char_toLowerCase c) :: nat)
   = (if capital_letter c then of_char c + 32 else of_char c)"
proof -
  have "(of_char c :: nat) + 32 < 256" if "capital_letter c"
    using that by (auto simp: capital_letter_def Let_def)
  then show ?thesis
    by (simp add: char_toLowerCase_def)
qed

lemma capital_not_lowercase:
  "capital_letter c \<Longrightarrow> \<not> lowercase_letter d \<Longrightarrow> (of_char c :: nat) + 32 \<noteq> of_char d"
  unfolding capital_letter_def lowercase_letter_def Let_def by arith

lemma char_toLowerCase_inj:
  assumes "\<not> lowercase_letter c" "\<not> lowercase_letter d"
    and "char_toLowerCase c = char_toLowerCase d"
  shows "c = d"
proof -
  from assms(3) have eq: "(of_char (char_toLowerCase c) :: nat) = of_char (char_toLowerCase d)"
    by simp
  have "(of_char c :: nat) = of_char d"
  proof (cases "capital_letter c")
    case True
    note c = this
    show ?thesis
    proof (cases "capital_letter d")
      case True
      with c eq show ?thesis by (simp add: of_char_toLowerCase)
    next
      case False
      with c eq have "(of_char c :: nat) + 32 = of_char d" by (simp add: of_char_toLowerCase)
      with capital_not_lowercase [OF c assms(2)] show ?thesis by simp
    qed
  next
    case False
    note c = this
    show ?thesis
    proof (cases "capital_letter d")
      case True
      with c eq have "(of_char d :: nat) + 32 = of_char c" by (simp add: of_char_toLowerCase)
      with capital_not_lowercase [OF True assms(1)] show ?thesis by simp
    next
      case False
      with c eq show ?thesis by (simp add: of_char_toLowerCase)
    qed
  qed
  then show ?thesis by simp
qed

lemma String_toLowerCase_inj:
  "\<forall>c\<in>set s. \<not> lowercase_letter c \<Longrightarrow> \<forall>c\<in>set s'. \<not> lowercase_letter c \<Longrightarrow>
   String_toLowerCase s = String_toLowerCase s' \<Longrightarrow> s = s'"
proof (induction s arbitrary: s')
  case Nil
  then show ?case by (simp add: String_toLowerCase_def)
next
  case (Cons c s)
  from Cons.prems(3) obtain d t where s': "s' = d # t"
    by (cases s') (simp_all add: String_toLowerCase_def)
  with Cons.prems have "char_toLowerCase c = char_toLowerCase d"
    and "String_toLowerCase s = String_toLowerCase t"
    and "\<not> lowercase_letter c" and "\<not> lowercase_letter d"
    and "\<forall>c\<in>set s. \<not> lowercase_letter c" and "\<forall>c\<in>set t. \<not> lowercase_letter c"
    by (simp_all add: String_toLowerCase_def)
  then show ?case using Cons.IH [of t] s' by (simp add: char_toLowerCase_inj)
qed

lemma inj_on_String_toLowerCase:
  "\<forall>s\<in>S. \<forall>c\<in>set s. \<not> lowercase_letter c \<Longrightarrow> inj_on String_toLowerCase S"
  by (rule inj_onI) (blast intro: String_toLowerCase_inj)

text \<open>
  Two names that differ in an accented letter only: \<^verbatim>\<open>MY-\<close> followed by U+00C9, and
  \<^verbatim>\<open>MY-\<close> followed by U+00E9. Lower case makes them one.
\<close>

lemma toLowerCase_accented_capital:
  "getUniqueDomElementsRobust e_acute_names (no_options\<lparr>toLowerCase := JBool False\<rparr>)
     = Inr [''MY-'' @ [char_of (201::nat)], ''MY-'' @ [char_of (233::nat)]]
   \<and> getUniqueDomElementsRobust e_acute_names (no_options\<lparr>toLowerCase := JBool True\<rparr>)
     = Inr [''my-'' @ [char_of (233::nat)]]"
  by code_simp

section \<open>Claims\<close>

text \<open>
  C1. For every document with a body, \<^verbatim>\<open>getUniqueDomElements()\<close> returns exactly the
  tag names that occur among the descendants of \<^verbatim>\<open>document.body\<close>, each of them once,
  in ascending lexicographic order.
\<close>

theorem getUniqueDomElements_correct:
  "set (getUniqueDomElements \<lparr>body = Some b\<rparr>) = {tagName d |d. descendant d b}
   \<and> distinct (getUniqueDomElements \<lparr>body = Some b\<rparr>)
   \<and> sorted (getUniqueDomElements \<lparr>body = Some b\<rparr>)"
  by (auto simp: getUniqueDomElements_def bodyElements_def set_new_Set distinct_new_Set
      set_querySelectorAll)

text \<open>
  C2, as far as it holds. When \<^verbatim>\<open>document.body\<close> is absent, \<^verbatim>\<open>getUniqueDomElements\<close>,
  \<^verbatim>\<open>getUniqueDomElementsWithMetadata\<close>, \<^verbatim>\<open>analyzeDomStructure\<close> and
  \<^verbatim>\<open>getMaxNestingDepth\<close> return the empty result: no labels, no records, zero counts,
  no most or least common tag, zero depth. \<^verbatim>\<open>getUniqueDomElementsRobust\<close> called
  without a container does not: its guard \<^verbatim>\<open>if (!container)\<close> runs after the default
  was substituted, and throws.
\<close>

theorem empty_default:
  "body doc = None \<Longrightarrow>
   getUniqueDomElements doc = []
   \<and> getUniqueDomElementsWithMetadata localeCompare doc False = TagNames []
   \<and> getUniqueDomElementsWithMetadata localeCompare doc True = Metadata []
   \<and> totalElements (analyzeDomStructure doc) = 0
   \<and> uniqueElements (analyzeDomStructure doc) = 0
   \<and> mostCommon (analyzeDomStructure doc) = None
   \<and> leastCommon (analyzeDomStructure doc) = None
   \<and> elementFrequency (analyzeDomStructure doc) = []
   \<and> deepestNesting (analyzeDomStructure doc) = 0
   \<and> getMaxNestingDepth doc = 0
   \<and> (container opts = JUndefined \<longrightarrow>
        getUniqueDomElementsRobust doc opts = Inl ContainerNotFound)"
  by (simp add: getUniqueDomElements_def bodyElements_def new_Set_def
      getUniqueDomElementsWithMetadata_def elementMap_of_def Array_sort_def
      analyzeDomStructure_def tagCounts_of_def Object_fromEntries_def getMaxNestingDepth_def
      getUniqueDomElementsRobust_def default_to_def document_body_def)

theorem empty_default_witness:
  "body no_body = None \<and> container no_options = JUndefined
   \<and> getUniqueDomElements no_body = []
   \<and> totalElements (analyzeDomStructure no_body) = 0
   \<and> getUniqueDomElementsRobust no_body no_options = Inl ContainerNotFound"
  using empty_default [of no_body codeUnitCompare no_options]
  by (simp add: no_body_def no_options_def)

text \<open>
  C2 as stated fails for \<^verbatim>\<open>getUniqueDomElementsRobust\<close>: with no options, on a document
  without a body, it throws the error and returns no list.
\<close>

theorem robust_empty_default_counterexample:
  "getUniqueDomElementsRobust no_body no_options = Inl ContainerNotFound
   \<and> getUniqueDomElementsRobust no_body no_options \<noteq> Inr []"
  by (simp add: getUniqueDomElementsRobust_def default_to_def document_body_def
      no_body_def no_options_def)

text \<open>
  C3. When the \<^verbatim>\<open>container\<close> option is \<^verbatim>\<open>null\<close>, \<^verbatim>\<open>getUniqueDomElementsRobust\<close>
  throws the error \<^verbatim>\<open>Container element not found\<close>; the result is the error alone,
  whatever the document and the other options.
\<close>

theorem missing_container_raises:
  "container opts = JNull \<Longrightarrow> getUniqueDomElementsRobust doc opts = Inl ContainerNotFound"
  by (simp add: getUniqueDomElementsRobust_def default_to_def)

theorem missing_container_raises_witness:
  "container (no_options\<lparr>container := JNull\<rparr>) = JNull
   \<and> getUniqueDomElementsRobust div_span_p (no_options\<lparr>container := JNull\<rparr>) = Inl ContainerNotFound"
  using missing_container_raises [of "no_options\<lparr>container := JNull\<rparr>" div_span_p]
  by (simp add: no_options_def)

text \<open>
  C4, as far as it holds. \<open>mostCommon\<close> is the entry with the greatest count, and among
  several of them the one whose tag was seen first; \<open>leastCommon\<close> is the entry with
  the least count, and among several of them the one whose tag was first seen
  \<^emph>\<open>last\<close>: it is the last element of the stably sorted array. Both are present
  when the body has a descendant.
\<close>

theorem analyzeDomStructure_extremes:
  "mostCommon (analyzeDomStructure doc)
     = find (\<lambda>e. snd e = Max (snd ` set (firstSeenCounts doc))) (firstSeenCounts doc)
   \<and> leastCommon (analyzeDomStructure doc)
     = find (\<lambda>e. snd e = Min (snd ` set (firstSeenCounts doc))) (rev (firstSeenCounts doc))
   \<and> (bodyElements doc \<noteq> [] \<longrightarrow>
        mostCommon (analyzeDomStructure doc) \<noteq> None
        \<and> leastCommon (analyzeDomStructure doc) \<noteq> None)"
proof (intro conjI impI)
  show "mostCommon (analyzeDomStructure doc)
     = find (\<lambda>e. snd e = Max (snd ` set (firstSeenCounts doc))) (firstSeenCounts doc)"
    by (simp add: mostCommon_find find_Max)
  show "leastCommon (analyzeDomStructure doc)
     = find (\<lambda>e. snd e = Min (snd ` set (firstSeenCounts doc))) (rev (firstSeenCounts doc))"
    by (simp add: leastCommon_find find_Min)
next
  assume "bodyElements doc \<noteq> []"
  then have "sort_key (\<lambda>e. - int (snd e)) (firstSeenCounts doc) \<noteq> []"
    by (metis firstSeenCounts_Nil length_sort length_0_conv)
  then show "mostCommon (analyzeDomStructure doc) \<noteq> None"
    and "leastCommon (analyzeDomStructure doc) \<noteq> None"
    by (auto simp: analyzeDomStructure_def Let_def sortedByCount_firstSeen split: list.splits)
qed

theorem analyzeDomStructure_extremes_witness:
  "bodyElements div_span_p \<noteq> []
   \<and> mostCommon (analyzeDomStructure div_span_p) = Some (''DIV'', 1)
   \<and> find (\<lambda>e. snd e = Max (snd ` set (firstSeenCounts div_span_p))) (firstSeenCounts div_span_p)
       = Some (''DIV'', 1)
   \<and> leastCommon (analyzeDomStructure div_span_p) \<noteq> None
   \<and> find (\<lambda>e. snd e = Min (snd ` set (firstSeenCounts div_span_p)))
         (rev (firstSeenCounts div_span_p))
       = Some (''P'', 1)"
  using analyzeDomStructure_extremes [of div_span_p] by code_simp

text \<open>
  C4 as stated fails for \<open>leastCommon\<close>: with a \<^verbatim>\<open>DIV\<close> holding a \<^verbatim>\<open>SPAN\<close>, and a
  \<^verbatim>\<open>P\<close> beside it, every tag occurs once and \<^verbatim>\<open>DIV\<close> is seen first, yet
  \<open>leastCommon\<close> is \<^verbatim>\<open>P\<close>.
\<close>

theorem leastCommon_first_seen_counterexample:
  "firstSeenCounts div_span_p = [(''DIV'', 1), (''SPAN'', 1), (''P'', 1)]
   \<and> leastCommon (analyzeDomStructure div_span_p) = Some (''P'', 1)"
  by code_simp

text \<open>
  C5, as far as it holds. \<open>elementFrequency\<close> maps every tag among the descendants of
  the body to the number of its occurrences, and nothing else. It is built from the
  sorted array, so its entries stand in order of descending count, and entries of equal
  count in the order in which their tags were first seen. The \<^verbatim>\<open>tagCounts\<close> map that
  is sorted holds the tags in first-seen order.
\<close>

theorem elementFrequency_order:
  "sorted (rev (map snd (elementFrequency (analyzeDomStructure doc))))
   \<and> (\<forall>n. filter (\<lambda>e. snd e = n) (elementFrequency (analyzeDomStructure doc))
          = filter (\<lambda>e. snd e = n) (firstSeenCounts doc))
   \<and> map_of (elementFrequency (analyzeDomStructure doc))
       = (\<lambda>t. if t \<in> tagName ` set (bodyElements doc)
               then Some (count_list (map tagName (bodyElements doc)) t) else None)
   \<and> tagCounts_of doc = firstSeenCounts doc
   \<and> map fst (firstSeenCounts doc) = new_Set (map tagName (bodyElements doc))"
proof (intro conjI allI)
  let ?key = "\<lambda>e::string \<times> nat. - int (snd e)"
  let ?fs = "firstSeenCounts doc"
  have "sorted (map ?key (sort_key ?key ?fs))" by (rule sorted_sort_key)
  then show "sorted (rev (map snd (elementFrequency (analyzeDomStructure doc))))"
    by (simp add: elementFrequency_sort_key sorted_wrt_rev sorted_wrt_map)
  show "filter (\<lambda>e. snd e = n) (elementFrequency (analyzeDomStructure doc))
          = filter (\<lambda>e. snd e = n) ?fs" for n
    using sort_key_stable [of ?key "- int n" ?fs] by (simp add: elementFrequency_sort_key)
  have "distinct (map fst (sort_key ?key ?fs))"
    by (simp add: distinct_map_sort_key distinct_firstSeenCounts)
  then have "map_of (sort_key ?key ?fs) = map_of ?fs"
    using map_of_inject_set [of "sort_key ?key ?fs" ?fs] distinct_firstSeenCounts [of doc]
    by simp
  also have "\<dots> = (\<lambda>t. if t \<in> tagName ` set (bodyElements doc)
               then Some (count_list (map tagName (bodyElements doc)) t) else None)"
    by (rule ext) (simp add: firstSeenCounts_def Let_def map_of_keyed set_new_Set)
  finally show "map_of (elementFrequency (analyzeDomStructure doc))
       = (\<lambda>t. if t \<in> tagName ` set (bodyElements doc)
               then Some (count_list (map tagName (bodyElements doc)) t) else None)"
    by (simp add: elementFrequency_sort_key)
  show "tagCounts_of doc = ?fs"
    by (rule tagCounts_of_firstSeenCounts)
  show "map fst ?fs = new_Set (map tagName (bodyElements doc))"
    by (simp add: firstSeenCounts_def Let_def comp_def)
qed

text \<open>
  C5 as stated fails on the order: for the children \<^verbatim>\<open>P\<close>, \<^verbatim>\<open>DIV\<close>, \<^verbatim>\<open>DIV\<close> the
  first-seen order is \<^verbatim>\<open>P\<close>, \<^verbatim>\<open>DIV\<close>, and \<open>elementFrequency\<close> lists \<^verbatim>\<open>DIV\<close>
  first.
\<close>

theorem elementFrequency_first_seen_counterexample:
  "map fst (elementFrequency (analyzeDomStructure p_div_div)) = [''DIV'', ''P'']
   \<and> new_Set (map tagName (bodyElements p_div_div)) = [''P'', ''DIV'']"
  by code_simp

text \<open>
  C6. \<open>totalElements\<close> is the sum of the counts of \<open>elementFrequency\<close>, of the
  \<^verbatim>\<open>tagCounts\<close> map and of the tag records of
  \<^verbatim>\<open>getUniqueDomElementsWithMetadata(true)\<close>, and it is the number of elements below
  the body (zero without a body).
\<close>

theorem totalElements_sum:
  "totalElements (analyzeDomStructure doc)
     = sum_list (map snd (elementFrequency (analyzeDomStructure doc)))
   \<and> totalElements (analyzeDomStructure doc) = sum_list (map snd (tagCounts_of doc))
   \<and> totalElements (analyzeDomStructure doc)
     = (case body doc of None \<Rightarrow> 0 | Some b \<Rightarrow> descendant_count b)
   \<and> (\<exists>rs. getUniqueDomElementsWithMetadata localeCompare doc True = Metadata rs
        \<and> totalElements (analyzeDomStructure doc) = sum_list (map count rs))"
proof (intro conjI exI)
  have total: "totalElements (analyzeDomStructure doc) = length (bodyElements doc)"
    by (simp add: analyzeDomStructure_def Let_def)
  have "sum_list (map snd (sort_key (\<lambda>e. - int (snd e)) (firstSeenCounts doc)))
    = sum_list (map snd (firstSeenCounts doc))"
    using sum_list_Array_sort [of snd "\<lambda>a b. int (snd b) - int (snd a)" "firstSeenCounts doc"]
    by (simp add: sortedByCount_sort_key)
  then show "totalElements (analyzeDomStructure doc)
     = sum_list (map snd (elementFrequency (analyzeDomStructure doc)))"
    by (simp add: total elementFrequency_sort_key sum_firstSeenCounts)
  show "totalElements (analyzeDomStructure doc) = sum_list (map snd (tagCounts_of doc))"
    by (simp add: total tagCounts_of_firstSeenCounts sum_firstSeenCounts)
  show "totalElements (analyzeDomStructure doc)
     = (case body doc of None \<Rightarrow> 0 | Some b \<Rightarrow> descendant_count b)"
    by (simp add: total bodyElements_def length_querySelectorAll split: option.split)
  let ?cmp = "\<lambda>a b. localeCompare (rec_tagName a) (rec_tagName b)"
  show "getUniqueDomElementsWithMetadata localeCompare doc True
    = Metadata (Array_sort ?cmp (map snd (elementMap_of doc)))"
    by (simp add: getUniqueDomElementsWithMetadata_def)
  have "sum_list (map count (map snd (elementMap_of doc))) = sum_list (map snd (firstSeenCounts doc))"
    by (simp add: elementMap_of_values firstSeenCounts_def Let_def comp_def count_tag_record_of)
  then show "totalElements (analyzeDomStructure doc)
    = sum_list (map count (Array_sort ?cmp (map snd (elementMap_of doc))))"
    by (simp only: total sum_list_Array_sort sum_firstSeenCounts)
qed

text \<open>
  C7. \<^verbatim>\<open>getMaxNestingDepth\<close> is 0 for a document without a body, 0 for a body without
  children, 1 for a body whose children have no children of their own, and in general
  the number of child links on the longest path down from the body: the body is at
  depth 0 and every level of children adds 1.
\<close>

theorem getMaxNestingDepth_cases:
  "getMaxNestingDepth \<lparr>body = None\<rparr> = 0
   \<and> getMaxNestingDepth \<lparr>body = Some (Element t a c [])\<rparr> = 0
   \<and> (cs \<noteq> [] \<and> (\<forall>child\<in>set cs. children child = []) \<longrightarrow>
        getMaxNestingDepth \<lparr>body = Some (Element t a c cs)\<rparr> = 1)
   \<and> getMaxNestingDepth \<lparr>body = Some b\<rparr> = height b"
  by (simp add: getMaxNestingDepth_height height_flat) (simp add: getMaxNestingDepth_def)

theorem getMaxNestingDepth_cases_witness:
  "[leaf ''P'', leaf ''DIV'', leaf ''DIV''] \<noteq> []
   \<and> list_all (\<lambda>child. children child = []) [leaf ''P'', leaf ''DIV'', leaf ''DIV'']
   \<and> getMaxNestingDepth p_div_div = 1
   \<and> getMaxNestingDepth div_span_p = 2"
  using getMaxNestingDepth_cases [of "''BODY''" "[]" "[]" "[leaf ''P'', leaf ''DIV'', leaf ''DIV'']"
      "Element ''BODY'' [] [] [Element ''DIV'' [] [] [leaf ''SPAN''], leaf ''P'']"]
  by (simp add: p_div_div_def div_span_p_def leaf_def)

text \<open>
  C8, as far as it holds. When the call with \<open>toLowerCase = false\<close> returns the labels
  \<open>us\<close>, the call with \<open>toLowerCase = true\<close> and the same other options returns
  labels \<open>ls\<close> whose set is the image of \<open>us\<close> under the lower-case transform. The
  transform is a bijection between the two sets, which then have as many labels, when
  it is injective on \<open>us\<close>; it is when no label of \<open>us\<close> holds a small letter that
  has a capital (a to z, U+00E0 to U+00FE without U+00F7).
\<close>

theorem toLowerCase_labels:
  assumes "getUniqueDomElementsRobust doc (opts\<lparr>toLowerCase := JBool False\<rparr>) = Inr us"
  shows "\<exists>ls. getUniqueDomElementsRobust doc (opts\<lparr>toLowerCase := JBool True\<rparr>) = Inr ls
     \<and> set ls = String_toLowerCase ` set us
     \<and> (inj_on String_toLowerCase (set us) \<longrightarrow>
          bij_betw String_toLowerCase (set us) (set ls) \<and> length ls = length us)
     \<and> ((\<forall>u\<in>set us. \<forall>ch\<in>set u. \<not> lowercase_letter ch) \<longrightarrow>
          inj_on String_toLowerCase (set us))"
proof -
  from Robust_Inr_element [OF assms]
  obtain c where c: "default_to (document_body doc) (container opts) = JElement c"
    by auto
  define els where "els = querySelectorAll c
     @ (if truthy (default_to (JBool False) (includeContainer opts)) then [c] else [])"
  define srt where "srt = (if truthy (default_to (JBool True) (sortResults opts))
     then sort else (\<lambda>xs::string list. xs))"
  have set_srt: "set (srt xs) = set xs" and distinct_srt: "distinct (srt xs) = distinct xs" for xs
    by (simp_all add: srt_def)
  have "getUniqueDomElementsRobust doc (opts\<lparr>toLowerCase := JBool False\<rparr>)
    = Inr (srt (new_Set (map tagName els)))"
    using c Robust_element [of doc "opts\<lparr>toLowerCase := JBool False\<rparr>" c]
    by (simp add: default_to_def els_def srt_def)
  with assms have us: "us = srt (new_Set (map tagName els))" by simp
  let ?ls = "srt (new_Set (map (\<lambda>el. String_toLowerCase (tagName el)) els))"
  have ls: "getUniqueDomElementsRobust doc (opts\<lparr>toLowerCase := JBool True\<rparr>) = Inr ?ls"
    using c Robust_element [of doc "opts\<lparr>toLowerCase := JBool True\<rparr>" c]
    by (simp add: default_to_def els_def srt_def)
  have set_ls: "set ?ls = String_toLowerCase ` set us"
    by (simp add: us set_srt set_new_Set image_image)
  have d: "distinct us" "distinct ?ls"
    by (simp_all add: us distinct_srt distinct_new_Set)
  have "length ?ls = length us" if "inj_on String_toLowerCase (set us)"
    using d(1) d(2) set_ls that by (rule length_eq_card_image)
  moreover have "inj_on String_toLowerCase (set us)"
    if "\<forall>u\<in>set us. \<forall>ch\<in>set u. \<not> lowercase_letter ch"
    using that by (rule inj_on_String_toLowerCase)
  ultimately show ?thesis
    using set_ls ls unfolding bij_betw_def by blast
qed

theorem toLowerCase_labels_witness:
  "getUniqueDomElementsRobust div_span_p (no_options\<lparr>toLowerCase := JBool False\<rparr>)
     = Inr [''DIV'', ''P'', ''SPAN'']
   \<and> list_all (list_all (\<lambda>ch. \<not> lowercase_letter ch)) [''DIV'', ''P'', ''SPAN'']
   \<and> inj_on String_toLowerCase (set [''DIV'', ''P'', ''SPAN''])
   \<and> getUniqueDomElementsRobust div_span_p (no_options\<lparr>toLowerCase := JBool True\<rparr>)
     = Inr [''div'', ''p'', ''span'']
   \<and> bij_betw String_toLowerCase (set [''DIV'', ''P'', ''SPAN'']) (set [''div'', ''p'', ''span''])"
proof -
  have u: "getUniqueDomElementsRobust div_span_p (no_options\<lparr>toLowerCase := JBool False\<rparr>)
     = Inr [''DIV'', ''P'', ''SPAN'']" by code_simp
  have l: "getUniqueDomElementsRobust div_span_p (no_options\<lparr>toLowerCase := JBool True\<rparr>)
     = Inr [''div'', ''p'', ''span'']" by code_simp
  have c: "list_all (list_all (\<lambda>ch. \<not> lowercase_letter ch)) [''DIV'', ''P'', ''SPAN'']"
    by code_simp
  then have "\<forall>u\<in>set [''DIV'', ''P'', ''SPAN'']. \<forall>ch\<in>set u. \<not> lowercase_letter ch"
    unfolding list_all_iff by blast
  with toLowerCase_labels [OF u] obtain ls
    where ls: "getUniqueDomElementsRobust div_span_p (no_options\<lparr>toLowerCase := JBool True\<rparr>) = Inr ls"
      and b: "inj_on String_toLowerCase (set [''DIV'', ''P'', ''SPAN'']) \<longrightarrow>
        bij_betw String_toLowerCase (set [''DIV'', ''P'', ''SPAN'']) (set ls)
        \<and> length ls = length [''DIV'', ''P'', ''SPAN'']"
      and i: "inj_on String_toLowerCase (set [''DIV'', ''P'', ''SPAN''])"
    by blast
  from ls l have "ls = [''div'', ''p'', ''span'']" by simp
  with b i have "bij_betw String_toLowerCase (set [''DIV'', ''P'', ''SPAN'']) (set [''div'', ''p'', ''span''])"
    by blast
  with u c i l show ?thesis by blast
qed

text \<open>
  C8 as stated fails when two tag names differ in case only, as those of an HTML
  \<^verbatim>\<open>a\<close> element (\<^verbatim>\<open>A\<close>) and of an SVG \<^verbatim>\<open>a\<close> element (\<^verbatim>\<open>a\<close>) do: three labels
  become two.
\<close>

theorem toLowerCase_bijection_counterexample:
  "getUniqueDomElementsRobust html_a_svg_a (no_options\<lparr>toLowerCase := JBool False\<rparr>)
     = Inr [''A'', ''a'', ''svg'']
   \<and> getUniqueDomElementsRobust html_a_svg_a (no_options\<lparr>toLowerCase := JBool True\<rparr>)
     = Inr [''a'', ''svg'']
   \<and> \<not> bij_betw String_toLowerCase (set [''A'', ''a'', ''svg'']) (set [''a'', ''svg''])"
proof (intro conjI notI)
  show "getUniqueDomElementsRobust html_a_svg_a (no_options\<lparr>toLowerCase := JBool False\<rparr>)
     = Inr [''A'', ''a'', ''svg'']" by code_simp
  show "getUniqueDomElementsRobust html_a_svg_a (no_options\<lparr>toLowerCase := JBool True\<rparr>)
     = Inr [''a'', ''svg'']" by code_simp
  assume "bij_betw String_toLowerCase (set [''A'', ''a'', ''svg'']) (set [''a'', ''svg''])"
  then have "inj_on String_toLowerCase (set [''A'', ''a'', ''svg''])"
    by (rule bij_betw_imp_inj_on)
  moreover have "String_toLowerCase ''A'' = String_toLowerCase ''a''" by code_simp
  moreover have "''A'' \<in> set [''A'', ''a'', ''svg'']" and "''a'' \<in> set [''A'', ''a'', ''svg'']"
    by simp_all
  ultimately have "''A'' = ''a''" by (rule inj_onD)
  then show False by simp
qed



text \<open>
  C10. When the \<^verbatim>\<open>container\<close> option is omitted or \<^verbatim>\<open>undefined\<close>,
  \<^verbatim>\<open>getUniqueDomElementsRobust\<close> does what it does for \<^verbatim>\<open>document.body\<close> given as the
  container. It throws \<^verbatim>\<open>Container element not found\<close> exactly when the resolved
  container (the option if it is not \<^verbatim>\<open>undefined\<close>, \<^verbatim>\<open>document.body\<close> otherwise) is
  falsy.
\<close>

theorem container_default:
  "(container opts = JUndefined \<longrightarrow>
      getUniqueDomElementsRobust doc opts
      = getUniqueDomElementsRobust doc (opts\<lparr>container := document_body doc\<rparr>))
   \<and> (getUniqueDomElementsRobust doc opts = Inl ContainerNotFound
        \<longleftrightarrow> \<not> truthy (if container opts = JUndefined then document_body doc else container opts))"
  by (cases "container opts")
    (auto simp: getUniqueDomElementsRobust_def default_to_def document_body_def Let_def
      split: option.splits js_value.splits)

theorem container_default_witness:
  "container no_options = JUndefined
   \<and> getUniqueDomElementsRobust div_span_p no_options
     = getUniqueDomElementsRobust div_span_p (no_options\<lparr>container := document_body div_span_p\<rparr>)
   \<and> getUniqueDomElementsRobust div_span_p no_options = Inr [''DIV'', ''P'', ''SPAN'']"
proof -
  have "getUniqueDomElementsRobust div_span_p no_options = Inr [''DIV'', ''P'', ''SPAN'']"
    by code_simp
  with container_default [of no_options div_span_p] show ?thesis
    by (simp add: no_options_def)
qed

end
